theory Spec2Isabelle
  imports Main "HOL-Library.Word"
begin

unbundle bit_operations_syntax

section \<open>Strings of the source language\<close>

text \<open>
  The program is Python; its \<^verbatim>\<open>str\<close> values are sequences of code points.
  A \<^typ>\<open>char\<close> stands for one code point in the range U+0000 .. U+00FF, read off by
  \<open>code_point\<close>; a \<^typ>\<open>string\<close> is a \<^verbatim>\<open>str\<close> all of whose code points are
  below 256.  The library operations below (\<^verbatim>\<open>strip\<close>, \<^verbatim>\<open>lower\<close>,
  \<^verbatim>\<open>split\<close>, \<^verbatim>\<open>in\<close>, \<^verbatim>\<open>endswith\<close>, \<^verbatim>\<open>splitlines\<close>) follow CPython on
  that range.
\<close>

definition code_point :: "char \<Rightarrow> nat" where
  "code_point c = of_char c"

text \<open>\<^verbatim>\<open>str.isspace\<close> on one code point: U+0009..U+000D, U+001C..U+001F, U+0020,
  U+0085 and U+00A0.\<close>

definition is_space :: "char \<Rightarrow> bool" where
  "is_space c =
     (let n = code_point c
      in (9 \<le> n \<and> n \<le> 13) \<or> (28 \<le> n \<and> n \<le> 32) \<or> n = 133 \<or> n = 160)"

text \<open>\<^verbatim>\<open>s.strip()\<close>: drop the white space at both ends.\<close>

definition py_lstrip :: "string \<Rightarrow> string" where
  "py_lstrip s = dropWhile is_space s"

definition py_rstrip :: "string \<Rightarrow> string" where
  "py_rstrip s = rev (dropWhile is_space (rev s))"

definition py_strip :: "string \<Rightarrow> string" where
  "py_strip s = py_rstrip (py_lstrip s)"

text \<open>\<^verbatim>\<open>s.lower()\<close>: below U+0100 the cased letters are A..Z and U+00C0..U+00DE
  without the multiplication sign U+00D7; each moves up by 32.\<close>

definition lower_char :: "char \<Rightarrow> char" where
  "lower_char c =
     (let n = code_point c
      in if (65 \<le> n \<and> n \<le> 90) \<or> (192 \<le> n \<and> n \<le> 222 \<and> n \<noteq> 215)
         then char_of (n + 32) else c)"

definition py_lower :: "string \<Rightarrow> string" where
  "py_lower s = map lower_char s"

text \<open>\<^verbatim>\<open>s.startswith(p)\<close>, \<^verbatim>\<open>s.endswith(x)\<close> and the substring test
  \<^verbatim>\<open>k in s\<close>.\<close>

definition py_startswith :: "string \<Rightarrow> string \<Rightarrow> bool" where
  "py_startswith s p = (take (length p) s = p)"

definition py_endswith :: "string \<Rightarrow> string \<Rightarrow> bool" where
  "py_endswith s x = (length x \<le> length s \<and> drop (length s - length x) s = x)"

fun py_in :: "string \<Rightarrow> string \<Rightarrow> bool" where
  "py_in k [] = (k = [])"
| "py_in k (c # cs) = (py_startswith (c # cs) k \<or> py_in k cs)"

text \<open>\<^verbatim>\<open>s.split(sep)\<close> for a separator of one character: the pieces between the
  separators, empty pieces kept, never an empty list.\<close>

fun py_split :: "char \<Rightarrow> string \<Rightarrow> string list" where
  "py_split sep [] = [[]]"
| "py_split sep (c # cs) =
     (if c = sep then [] # py_split sep cs
      else (case py_split sep cs of
              [] \<Rightarrow> [[c]]
            | p # ps \<Rightarrow> (c # p) # ps))"

text \<open>\<^verbatim>\<open>s.split(sep, 1)\<close>: at most one split, at the first separator.\<close>

definition py_split1 :: "char \<Rightarrow> string \<Rightarrow> string list" where
  "py_split1 sep s =
     (case dropWhile (\<lambda>c. c \<noteq> sep) s of
        [] \<Rightarrow> [s]
      | _ # rest \<Rightarrow> [takeWhile (\<lambda>c. c \<noteq> sep) s, rest])"

text \<open>\<^verbatim>\<open>sep.join(parts)\<close>.\<close>

fun py_join :: "string \<Rightarrow> string list \<Rightarrow> string" where
  "py_join sep [] = []"
| "py_join sep [p] = p"
| "py_join sep (p # q # ps) = p @ sep @ py_join sep (q # ps)"

text \<open>The one exception the modelled code can raise: unpacking a list that does not have
  exactly two items.\<close>

datatype py_error = ValueError

section \<open>The regular expression of the validator\<close>

text \<open>
  The pattern of \<^verbatim>\<open>validate_email\<close> is
  \<^verbatim>\<open>^[a-zA-Z0-9_.+-]+@[a-zA-Z0-9-]+\.[a-zA-Z0-9-.]+$\<close>: a sequence of literal characters
  and of character classes under \<^verbatim>\<open>+\<close>, between the two anchors.  \<open>re_match\<close> is the
  backtracking matcher of \<^verbatim>\<open>re.match\<close> for such a sequence: a class under \<^verbatim>\<open>+\<close>
  takes one character and then either goes on (greedily) or hands over to the rest of
  the pattern.  At the end of the pattern stands \<^verbatim>\<open>$\<close>, which holds at the end of the
  string and also just before a line feed that ends the string.
\<close>

datatype re_item = Lit char | Plus "char \<Rightarrow> bool"

fun re_match :: "re_item list \<Rightarrow> string \<Rightarrow> bool" where
  "re_match [] s = (s = [] \<or> s = [CHR 0x0A])"
| "re_match (Lit c # r) [] = False"
| "re_match (Lit c # r) (x # xs) = (x = c \<and> re_match r xs)"
| "re_match (Plus cls # r) [] = False"
| "re_match (Plus cls # r) (x # xs) =
     (cls x \<and> (re_match (Plus cls # r) xs \<or> re_match r xs))"

definition is_alnum :: "char \<Rightarrow> bool" where
  "is_alnum c =
     (let n = code_point c
      in (97 \<le> n \<and> n \<le> 122) \<or> (65 \<le> n \<and> n \<le> 90) \<or> (48 \<le> n \<and> n \<le> 57))"

text \<open>The three classes \<^verbatim>\<open>[a-zA-Z0-9_.+-]\<close>, \<^verbatim>\<open>[a-zA-Z0-9-]\<close> and
  \<^verbatim>\<open>[a-zA-Z0-9-.]\<close>.\<close>

definition local_class :: "char \<Rightarrow> bool" where
  "local_class c = (is_alnum c \<or> c = CHR ''_'' \<or> c = CHR ''.'' \<or> c = CHR ''+'' \<or> c = CHR ''-'')"

definition label_class :: "char \<Rightarrow> bool" where
  "label_class c = (is_alnum c \<or> c = CHR ''-'')"

definition tail_class :: "char \<Rightarrow> bool" where
  "tail_class c = (is_alnum c \<or> c = CHR ''-'' \<or> c = CHR ''.'')"

definition email_pattern :: "re_item list" where
  "email_pattern =
     [Plus local_class, Lit CHR ''@'', Plus label_class, Lit CHR ''.'', Plus tail_class]"

section \<open>Validator and parser\<close>

definition validate_email :: "string \<Rightarrow> bool" where
  "validate_email email =
     (if email = [] \<or> \<not> py_in ''@'' email then False
      else re_match email_pattern (py_strip email))"

text \<open>\<^verbatim>\<open>parse_email\<close> unpacks the result of \<^verbatim>\<open>split("@", 1)\<close> into two names,
  which raises \<^verbatim>\<open>ValueError\<close> unless there are exactly two pieces.\<close>

definition parse_email :: "string \<Rightarrow> py_error + (string \<times> string \<times> string \<times> string)" where
  "parse_email email0 =
     (let email = py_strip email0
      in case py_split1 CHR ''@'' email of
           [username, domain_full] \<Rightarrow>
             (let domain_parts = py_split CHR ''.'' domain_full;
                  domain_name = (case domain_parts of [] \<Rightarrow> domain_full | p # _ \<Rightarrow> p);
                  extension = (if length domain_parts > 1 then last domain_parts else [])
              in Inr (username, domain_full, domain_name, extension))
         | _ \<Rightarrow> Inl ValueError)"

text \<open>
  The claim on the validator, as the specification words it: the trimmed string is
  \<open>local-part@domain\<close>, the local part is made of letters, digits and the characters
  \<^verbatim>\<open>. _ + -\<close>, and the domain is one or more labels of letters, digits and hyphens,
  separated by dots.  This definition follows the specification, not the source.
\<close>

definition spec_email_form :: "string \<Rightarrow> bool" where
  "spec_email_form s =
     (\<exists>l labels. s = l @ ''@'' @ py_join ''.'' labels \<and>
        l \<noteq> [] \<and> list_all local_class l \<and>
        labels \<noteq> [] \<and> list_all (\<lambda>b. b \<noteq> [] \<and> list_all label_class b) labels)"

section \<open>Classification\<close>

text \<open>The dictionary that \<^verbatim>\<open>provider_insights\<close> returns, with its three keys
  \<^verbatim>\<open>provider_name\<close>, \<^verbatim>\<open>provider_type\<close> and \<^verbatim>\<open>notes\<close> (here \<open>provider_notes\<close>).\<close>

record provider_info =
  provider_name :: string
  provider_type :: string
  provider_notes :: string

text \<open>The dictionary \<^verbatim>\<open>mapping\<close> of \<^verbatim>\<open>provider_insights\<close>, as the list of its
  items in the order of the literal: a Python dictionary iterates in insertion order.\<close>

definition provider_mapping :: "(string \<times> (string \<times> string \<times> string)) list" where
  "provider_mapping =
     [(''gmail.com'', (''Google Mail'', ''Free/Consumer'', ''Popular personal email provider (Gmail).'')),
      (''googlemail.com'', (''Google Mail'', ''Free/Consumer'', ''Alias for Gmail.'')),
      (''yahoo.com'', (''Yahoo Mail'', ''Free/Consumer'', ''Popular consumer email provider.'')),
      (''outlook.com'', (''Microsoft Outlook'', ''Free/Consumer'', ''Microsoft consumer email service.'')),
      (''hotmail.com'', (''Microsoft Hotmail/Outlook'', ''Free/Consumer'', ''Legacy Hotmail (now Outlook).'')),
      (''live.com'', (''Microsoft Live/Outlook'', ''Free/Consumer'', ''Microsoft's Live/Outlook domains.'')),
      (''protonmail.com'', (''Proton Mail'', ''Privacy-focused'', ''End-to-end encrypted email service.'')),
      (''icloud.com'', (''Apple iCloud Mail'', ''Free/Consumer'', ''Apple's consumer email service.'')),
      (''zoho.com'', (''Zoho Mail'', ''Business/SMB'', ''Often used for small-business/custom domains.'')),
      (''aol.com'', (''AOL Mail'', ''Free/Consumer'', ''Legacy consumer email provider.'')),
      (''mail.com'', (''mail.com'', ''Free/Consumer'', ''Consumer email service with multiple domain choices.'')),
      (''gmx.com'', (''GMX Mail'', ''Free/Consumer'', ''European consumer email provider.''))]"

text \<open>The test of the loop in \<^verbatim>\<open>provider_insights\<close>:
  \<^verbatim>\<open>domain == key or domain.endswith("." + key)\<close>.\<close>

definition provider_match :: "string \<Rightarrow> string \<Rightarrow> bool" where
  "provider_match domain key = (domain = key \<or> py_endswith domain (''.'' @ key))"

definition provider_insights :: "string \<Rightarrow> provider_info" where
  "provider_insights domain_full =
     (let domain = py_lower domain_full
      in case find (\<lambda>(key, val). provider_match domain key) provider_mapping of
           Some (key, (v0, v1, v2)) \<Rightarrow>
             \<lparr>provider_name = v0, provider_type = v1, provider_notes = v2\<rparr>
         | None \<Rightarrow>
             if py_endswith domain ''.edu'' then
               \<lparr>provider_name = ''Educational (edu)'', provider_type = ''Institutional'',
                provider_notes = ''Typically a university/college email.''\<rparr>
             else if py_endswith domain ''.gov'' then
               \<lparr>provider_name = ''Government (gov)'', provider_type = ''Institutional'',
                provider_notes = ''Government domain.''\<rparr>
             else
               \<lparr>provider_name = ''Custom / Organization'', provider_type = ''Custom/Business'',
                provider_notes = ''Could be a company or self-hosted email. Provider-specific features unknown.''\<rparr>)"

definition personal_keywords :: "string list" where
  "personal_keywords =
     [''gmail'', ''yahoo'', ''hotmail'', ''outlook'', ''icloud'', ''aol'', ''protonmail'',
      ''gmx'', ''mail.com'', ''zoho'']"

definition detect_email_type :: "string \<Rightarrow> string" where
  "detect_email_type domain_full =
     (let d = py_lower domain_full
      in if list_ex (\<lambda>k. py_in k d) personal_keywords then ''Personal Email''
         else if list_ex (py_endswith d) [''.edu'', ''.ac.in'', ''.edu.in''] then
           ''Educational / Academic Email''
         else if py_endswith d ''.gov'' then ''Government Email''
         else ''Business / Organizational Email'')"

text \<open>\<^verbatim>\<open>d.get(k, default)\<close> on a dictionary given by its items: it never raises.\<close>

definition dict_get :: "('k \<times> 'v) list \<Rightarrow> 'k \<Rightarrow> 'v \<Rightarrow> 'v" where
  "dict_get d k dflt = (case map_of d k of Some v \<Rightarrow> v | None \<Rightarrow> dflt)"

definition TLD_INFO :: "(string \<times> string) list" where
  "TLD_INFO =
     [(''com'', ''Commercial (global)''),
      (''org'', ''Organization (non-profit)''),
      (''net'', ''Network / ISP''),
      (''edu'', ''Educational institutions''),
      (''gov'', ''Government''),
      (''in'', ''India (country code TLD)''),
      (''uk'', ''United Kingdom (country code TLD)''),
      (''us'', ''United States (country code TLD)''),
      (''ca'', ''Canada (country code TLD)''),
      (''au'', ''Australia (country code TLD)'')]"

definition tld_info :: "string \<Rightarrow> string" where
  "tld_info extension =
     (if extension = [] then ''No TLD / local''
      else dict_get TLD_INFO (py_lower extension) ''Unknown or custom TLD'')"

definition COMMON_FIXES :: "(string \<times> string) list" where
  "COMMON_FIXES =
     [(''gamil.com'', ''gmail.com''),
      (''gmai.com'', ''gmail.com''),
      (''gmal.com'', ''gmail.com''),
      (''yaho.com'', ''yahoo.com''),
      (''hotnail.com'', ''hotmail.com''),
      (''outlok.com'', ''outlook.com''),
      (''gnail.com'', ''gmail.com'')]"

text \<open>\<^verbatim>\<open>COMMON_FIXES.get(k, None)\<close>: Python's \<^verbatim>\<open>None\<close> is \<open>None\<close>.\<close>

definition suggest_fix :: "string \<Rightarrow> string option" where
  "suggest_fix domain_full = map_of COMMON_FIXES (py_lower domain_full)"

text \<open>
  The four categories of the specification's \<open>EmailTypeCategory\<close>, the text the
  program prints for each, and the specification's rule of precedence: a keyword found
  anywhere in the domain, letter case ignored; else one of the educational suffixes; else
  the government suffix; else the default.  These three definitions follow the
  specification, not the source.
\<close>

datatype email_type_category = Personal | Educational | Government | Business

fun category_text :: "email_type_category \<Rightarrow> string" where
  "category_text Personal = ''Personal Email''"
| "category_text Educational = ''Educational / Academic Email''"
| "category_text Government = ''Government Email''"
| "category_text Business = ''Business / Organizational Email''"

definition spec_email_type :: "string \<Rightarrow> email_type_category" where
  "spec_email_type domain_full =
     (if \<exists>k pre post. k \<in> set personal_keywords \<and> py_lower domain_full = pre @ k @ post
        then Personal
      else if \<exists>pre. py_lower domain_full = pre @ ''.edu'' \<or> py_lower domain_full = pre @ ''.ac.in''
                    \<or> py_lower domain_full = pre @ ''.edu.in''
        then Educational
      else if \<exists>pre. py_lower domain_full = pre @ ''.gov'' then Government
      else Business)"

section \<open>The creation year\<close>

text \<open>
  \<^verbatim>\<open>fake_creation_year\<close> hashes the address with \<^verbatim>\<open>hashlib.md5\<close>.  The address is
  first encoded as UTF-8: a code point below 128 is one byte, one below 256 two bytes.
  A byte is a natural number below 256.  MD5 is the algorithm of RFC 1321:
  the message is padded to a multiple of 64 bytes, and each block of 64 bytes, read as
  sixteen little-endian 32-bit words, is mixed into a state of four 32-bit words in 64
  steps; the additions wrap around.
\<close>

type_synonym u32 = "32 word"

definition utf8_encode :: "string \<Rightarrow> nat list" where
  "utf8_encode s =
     concat (map (\<lambda>c. let n = code_point c
                      in if n < 128 then [n] else [192 + n div 64, 128 + n mod 64]) s)"

definition md5_shifts :: "nat list" where
  "md5_shifts =
     [7, 12, 17, 22, 7, 12, 17, 22, 7, 12, 17, 22, 7, 12, 17, 22,
      5, 9, 14, 20, 5, 9, 14, 20, 5, 9, 14, 20, 5, 9, 14, 20,
      4, 11, 16, 23, 4, 11, 16, 23, 4, 11, 16, 23, 4, 11, 16, 23,
      6, 10, 15, 21, 6, 10, 15, 21, 6, 10, 15, 21, 6, 10, 15, 21]"

definition md5_K :: "u32 list" where
  "md5_K =
     [0xd76aa478, 0xe8c7b756, 0x242070db, 0xc1bdceee,
      0xf57c0faf, 0x4787c62a, 0xa8304613, 0xfd469501,
      0x698098d8, 0x8b44f7af, 0xffff5bb1, 0x895cd7be,
      0x6b901122, 0xfd987193, 0xa679438e, 0x49b40821,
      0xf61e2562, 0xc040b340, 0x265e5a51, 0xe9b6c7aa,
      0xd62f105d, 0x02441453, 0xd8a1e681, 0xe7d3fbc8,
      0x21e1cde6, 0xc33707d6, 0xf4d50d87, 0x455a14ed,
      0xa9e3e905, 0xfcefa3f8, 0x676f02d9, 0x8d2a4c8a,
      0xfffa3942, 0x8771f681, 0x6d9d6122, 0xfde5380c,
      0xa4beea44, 0x4bdecfa9, 0xf6bb4b60, 0xbebfbc70,
      0x289b7ec6, 0xeaa127fa, 0xd4ef3085, 0x04881d05,
      0xd9d4d039, 0xe6db99e5, 0x1fa27cf8, 0xc4ac5665,
      0xf4292244, 0x432aff97, 0xab9423a7, 0xfc93a039,
      0x655b59c3, 0x8f0ccc92, 0xffeff47d, 0x85845dd1,
      0x6fa87e4f, 0xfe2ce6e0, 0xa3014314, 0x4e0811a1,
      0xf7537e82, 0xbd3af235, 0x2ad7d2bb, 0xeb86d391]"

text \<open>The \<open>k\<close> low bytes of a number, lowest first.\<close>

definition le_bytes :: "nat \<Rightarrow> nat \<Rightarrow> nat list" where
  "le_bytes k n = map (\<lambda>i. (n div 256 ^ i) mod 256) [0..<k]"

text \<open>Padding: the byte \<^verbatim>\<open>0x80\<close>, zero bytes up to 56 modulo 64, and the length of the
  message in bits as eight bytes.\<close>

definition md5_pad :: "nat list \<Rightarrow> nat list" where
  "md5_pad msg =
     msg @ [128] @ replicate ((119 - length msg mod 64) mod 64) 0
         @ le_bytes 8 ((8 * length msg) mod 2 ^ 64)"

fun le_word :: "nat list \<Rightarrow> u32" where
  "le_word bs = word_of_nat (foldr (\<lambda>b acc. b + 256 * acc) bs 0)"

fun chunks :: "nat \<Rightarrow> 'a list \<Rightarrow> 'a list list" where
  "chunks n xs = map (\<lambda>i. take n (drop (n * i) xs)) [0..<length xs div n]"

definition rotl32 :: "nat \<Rightarrow> u32 \<Rightarrow> u32" where
  "rotl32 n x = push_bit n x OR drop_bit (32 - n) x"

definition md5_step :: "u32 list \<Rightarrow> u32 \<times> u32 \<times> u32 \<times> u32 \<Rightarrow> nat \<Rightarrow> u32 \<times> u32 \<times> u32 \<times> u32" where
  "md5_step M st i =
     (case st of (a, b, c, d) \<Rightarrow>
        let (f, g) =
              (if i < 16 then ((b AND c) OR (NOT b AND d), i)
               else if i < 32 then ((d AND b) OR (NOT d AND c), (5 * i + 1) mod 16)
               else if i < 48 then (b XOR c XOR d, (3 * i + 5) mod 16)
               else (c XOR (b OR NOT d), (7 * i) mod 16));
            f' = f + a + md5_K ! i + M ! g
        in (d, b + rotl32 (md5_shifts ! i) f', b, c))"

definition md5_block :: "u32 \<times> u32 \<times> u32 \<times> u32 \<Rightarrow> nat list \<Rightarrow> u32 \<times> u32 \<times> u32 \<times> u32" where
  "md5_block st blk =
     (let M = map le_word (chunks 4 blk)
      in case (st, foldl (md5_step M) st [0..<64]) of
           ((a0, b0, c0, d0), (a, b, c, d)) \<Rightarrow> (a0 + a, b0 + b, c0 + c, d0 + d))"

definition md5_init :: "u32 \<times> u32 \<times> u32 \<times> u32" where
  "md5_init = (0x67452301, 0xefcdab89, 0x98badcfe, 0x10325476)"

text \<open>\<^verbatim>\<open>hashlib.md5(msg).digest()\<close>: the sixteen bytes of the final state.\<close>

definition md5_digest :: "nat list \<Rightarrow> nat list" where
  "md5_digest msg =
     (case foldl md5_block md5_init (chunks 64 (md5_pad msg)) of
        (a, b, c, d) \<Rightarrow> concat (map (\<lambda>w. le_bytes 4 (unat w)) [a, b, c, d]))"

text \<open>\<^verbatim>\<open>int(hashlib.md5(msg).hexdigest(), 16)\<close>: the digest read as one number, its
  first byte the most significant.\<close>

definition md5_int :: "nat list \<Rightarrow> int" where
  "md5_int msg = foldl (\<lambda>acc b. 256 * acc + int b) 0 (md5_digest msg)"

definition fake_creation_year :: "string \<Rightarrow> int" where
  "fake_creation_year email = 2000 + md5_int (utf8_encode email) mod 25"

section \<open>Bulk analysis\<close>

text \<open>\<^verbatim>\<open>s.splitlines()\<close>: the lines of \<open>s\<close> without their line breaks.  Below U+0100
  the line breaks are U+000A..U+000D, U+001C..U+001E and U+0085, and a carriage return
  followed by a line feed is one break.\<close>

definition is_linebreak :: "char \<Rightarrow> bool" where
  "is_linebreak c =
     (let n = code_point c
      in (10 \<le> n \<and> n \<le> 13) \<or> (28 \<le> n \<and> n \<le> 30) \<or> n = 133)"

function py_splitlines :: "string \<Rightarrow> string list" where
  "py_splitlines s =
     (if s = [] then []
      else (case dropWhile (\<lambda>c. \<not> is_linebreak c) s of
              [] \<Rightarrow> [s]
            | b # rest \<Rightarrow>
                takeWhile (\<lambda>c. \<not> is_linebreak c) s
                  # py_splitlines
                      (if b = CHR 0x0D \<and> take 1 rest = [CHR 0x0A] then drop 1 rest else rest)))"
  by pat_completeness auto
termination
proof (relation "measure length")
  show "wf (measure length)" by simp
next
  fix s :: string and b rest
  assume "s \<noteq> []" and d: "dropWhile (\<lambda>c. \<not> is_linebreak c) s = b # rest"
  have "length (b # rest) \<le> length s"
    unfolding d [symmetric] by (rule length_dropWhile_le)
  then show "(if b = CHR 0x0D \<and> take 1 rest = [CHR 0x0A] then drop 1 rest else rest, s)
      \<in> measure length"
    by auto
qed

text \<open>
  The records of the bulk table.  A valid line gives a dictionary with the twelve keys
  below (\<^verbatim>\<open>original\<close>, \<^verbatim>\<open>username\<close>, ... , \<^verbatim>\<open>suggest_fix\<close>, here with the prefix
  \<open>rec_\<close>); an invalid line gives the dictionary with the two keys \<^verbatim>\<open>original\<close> and
  \<^verbatim>\<open>error\<close>.
\<close>

record analysis =
  rec_original :: string
  rec_username :: string
  rec_domain :: string
  rec_extension :: string
  rec_username_len :: nat
  rec_domain_len :: nat
  rec_extension_len :: nat
  rec_provider :: string
  rec_type :: string
  rec_tld_info :: string
  rec_creation_year_est :: int
  rec_suggest_fix :: string

datatype bulk_record = ValidRecord analysis | ErrorRecord string string

text \<open>The body of the loop over the lines: the record \<^verbatim>\<open>rec\<close> of one line \<open>e\<close>.  An
  exception of \<open>parse_email\<close> would leave the loop.\<close>

definition bulk_record_of :: "string \<Rightarrow> py_error + bulk_record" where
  "bulk_record_of e =
     (let valid = validate_email e
      in if valid then
           (case parse_email e of
              Inl err \<Rightarrow> Inl err
            | Inr (u, d, n, x) \<Rightarrow>
                (let prov = provider_insights d;
                     etype = detect_email_type d;
                     fix = suggest_fix d
                 in Inr (ValidRecord
                      \<lparr>rec_original = e, rec_username = u, rec_domain = d, rec_extension = x,
                       rec_username_len = length u, rec_domain_len = length d,
                       rec_extension_len = length x,
                       rec_provider = provider_name prov, rec_type = etype,
                       rec_tld_info = tld_info x,
                       rec_creation_year_est = fake_creation_year e,
                       rec_suggest_fix =
                         (case fix of
                            None \<Rightarrow> []
                          | Some f \<Rightarrow> if f = [] then [] else u @ ''@'' @ f)\<rparr>)))
         else Inr (ErrorRecord e ''Invalid format''))"

text \<open>The loop \<^verbatim>\<open>for e in lines\<close>, appending each record to \<^verbatim>\<open>records\<close>.\<close>

fun bulk_loop :: "string list \<Rightarrow> bulk_record list \<Rightarrow> py_error + bulk_record list" where
  "bulk_loop [] records = Inr records"
| "bulk_loop (e # es) records =
     (case bulk_record_of e of
        Inl err \<Rightarrow> Inl err
      | Inr r \<Rightarrow> bulk_loop es (records @ [r]))"

text \<open>\<^verbatim>\<open>"error" in r\<close>.\<close>

fun has_error :: "bulk_record \<Rightarrow> bool" where
  "has_error (ValidRecord a) = False"
| "has_error (ErrorRecord original err) = True"

text \<open>
  The count of valid rows.  With an \<^verbatim>\<open>error\<close> column in the table (some record has the
  key) the rows whose \<^verbatim>\<open>error\<close> cell is missing are counted; without one the look-up
  of the column raises \<^verbatim>\<open>KeyError\<close>, which is caught, and the records without the key
  are counted one by one.
\<close>

definition valid_count :: "bulk_record list \<Rightarrow> nat" where
  "valid_count records =
     (if list_ex has_error records
      then length (filter (\<lambda>r. \<not> has_error r) records)
      else sum_list (map (\<lambda>r. 1) (filter (\<lambda>r. \<not> has_error r) records)))"

text \<open>
  The handler of the button: a warning when no line is left after trimming, else the
  records with the two numbers of the summary line, \<^verbatim>\<open>len(records)\<close> rows processed and
  \<open>valid_count\<close> valid.
\<close>

datatype bulk_outcome = Warning string | Results "bulk_record list" nat nat

definition analyze_bulk :: "string \<Rightarrow> py_error + bulk_outcome" where
  "analyze_bulk bulk_input =
     (let lines = map py_strip (filter (\<lambda>l. py_strip l \<noteq> []) (py_splitlines bulk_input))
      in if lines = [] then
           Inr (Warning ''Please paste at least one email address for bulk analysis.'')
         else (case bulk_loop lines [] of
                 Inl err \<Rightarrow> Inl err
               | Inr records \<Rightarrow> Inr (Results records (length records) (valid_count records))))"

text \<open>
  The specification's test of a table key against the lower-cased domain: the key equals
  it, or the domain ends with a dot followed by the key.  This definition follows the
  specification, not the source.
\<close>

definition spec_key_match :: "string \<Rightarrow> string \<Rightarrow> bool" where
  "spec_key_match s key = (s = key \<or> (\<exists>pre. s = pre @ ''.'' @ key))"

section \<open>Properties\<close>

lemma py_in_char: "py_in [c] s = (c \<in> set s)"
  by (induction s) (auto simp: py_startswith_def)

subsection \<open>The validator\<close>

lemma re_match_Lit: "re_match (Lit c # r) s = (\<exists>q. s = c # q \<and> re_match r q)"
  by (cases s) auto

lemma re_match_Plus:
  "re_match (Plus cls # r) s = (\<exists>p q. s = p @ q \<and> p \<noteq> [] \<and> list_all cls p \<and> re_match r q)"
proof (induction s)
  case Nil
  then show ?case by simp
next
  case (Cons x xs)
  show ?case
  proof
    assume "re_match (Plus cls # r) (x # xs)"
    then have cx: "cls x" and alt: "re_match (Plus cls # r) xs \<or> re_match r xs"
      by simp_all
    from alt show "\<exists>p q. x # xs = p @ q \<and> p \<noteq> [] \<and> list_all cls p \<and> re_match r q"
    proof
      assume "re_match (Plus cls # r) xs"
      with Cons.IH obtain p q where "xs = p @ q" "list_all cls p" "re_match r q"
        by blast
      with cx have "x # xs = (x # p) @ q \<and> x # p \<noteq> [] \<and> list_all cls (x # p) \<and> re_match r q"
        by simp
      then show ?thesis by blast
    next
      assume "re_match r xs"
      with cx have "x # xs = [x] @ xs \<and> [x] \<noteq> [] \<and> list_all cls [x] \<and> re_match r xs"
        by simp
      then show ?thesis by blast
    qed
  next
    assume "\<exists>p q. x # xs = p @ q \<and> p \<noteq> [] \<and> list_all cls p \<and> re_match r q"
    then obtain p q where pq: "x # xs = p @ q" "p \<noteq> []" "list_all cls p" "re_match r q"
      by blast
    then obtain p' where p': "p = x # p'" "xs = p' @ q"
      by (cases p) auto
    show "re_match (Plus cls # r) (x # xs)"
    proof (cases p')
      case Nil
      with p' pq show ?thesis by simp
    next
      case (Cons y ys)
      with p' pq have "xs = p' @ q \<and> p' \<noteq> [] \<and> list_all cls p' \<and> re_match r q"
        by simp
      then have "\<exists>p q. xs = p @ q \<and> p \<noteq> [] \<and> list_all cls p \<and> re_match r q"
        by blast
      with Cons.IH have "re_match (Plus cls # r) xs" by simp
      with p' pq show ?thesis by simp
    qed
  qed
qed

lemma py_lstrip_hd: "py_lstrip s = [] \<or> \<not> is_space (hd (py_lstrip s))"
  unfolding py_lstrip_def by (metis hd_dropWhile)

lemma py_rstrip_last: "py_rstrip s = [] \<or> \<not> is_space (last (py_rstrip s))"
  unfolding py_rstrip_def
  by (metis hd_dropWhile last_rev rev_is_Nil_conv) 

lemma py_strip_last: "py_strip s = [] \<or> \<not> is_space (last (py_strip s))"
  unfolding py_strip_def by (rule py_rstrip_last)

lemma set_py_strip: "set (py_strip s) \<subseteq> set s"
  unfolding py_strip_def py_rstrip_def py_lstrip_def
  by (metis set_dropWhileD set_rev subsetI)

lemma is_space_LF: "is_space (CHR 0x0A)"
  by (simp add: is_space_def code_point_def)


lemma re_match_email_pattern:
  "re_match email_pattern s =
     (\<exists>l d t z. s = l @ ''@'' @ d @ ''.'' @ t @ z \<and>
        l \<noteq> [] \<and> list_all local_class l \<and> d \<noteq> [] \<and> list_all label_class d \<and>
        t \<noteq> [] \<and> list_all tail_class t \<and> (z = [] \<or> z = [CHR 0x0A]))"
  unfolding email_pattern_def re_match_Plus re_match_Lit re_match.simps(1)
  by (simp add: ex_simps [symmetric] del: ex_simps)

lemma validate_email_unfold:
  "validate_email e = (e \<noteq> [] \<and> CHR ''@'' \<in> set e \<and> re_match email_pattern (py_strip e))"
  by (simp add: validate_email_def py_in_char)

lemma strip_no_trailing_LF: "py_strip e \<noteq> u @ [CHR 0x0A]"
  using py_strip_last [of e] is_space_LF by (metis last_snoc snoc_eq_iff_butlast)

lemmas class_defs = local_class_def label_class_def tail_class_def is_alnum_def code_point_def
lemmas strip_defs = py_strip_def py_lstrip_def py_rstrip_def is_space_def code_point_def

text \<open>
  Claim C1, as the code has it.  \<open>validate_email\<close> returns true exactly when the trimmed
  input is a non-empty local part of letters, digits and the characters \<^verbatim>\<open>. _ + -\<close>, then
  \<^verbatim>\<open>@\<close>, then a non-empty first label of letters, digits and hyphens, then a dot, then one
  or more characters each a letter, a digit, a hyphen or a dot.  It returns false for the
  empty string and for every string without \<^verbatim>\<open>@\<close>.
\<close>

theorem validate_email_iff:
  "(validate_email e \<longleftrightarrow>
      (\<exists>l d t. py_strip e = l @ ''@'' @ d @ ''.'' @ t \<and>
         l \<noteq> [] \<and> list_all local_class l \<and>
         d \<noteq> [] \<and> list_all label_class d \<and>
         t \<noteq> [] \<and> list_all tail_class t))
   \<and> \<not> validate_email []
   \<and> (\<not> py_in ''@'' e \<longrightarrow> \<not> validate_email e)"
proof (intro conjI)
  show "\<not> validate_email []" by (simp add: validate_email_def)
  show "\<not> py_in ''@'' e \<longrightarrow> \<not> validate_email e" by (simp add: validate_email_def)
  show "validate_email e \<longleftrightarrow>
      (\<exists>l d t. py_strip e = l @ ''@'' @ d @ ''.'' @ t \<and>
         l \<noteq> [] \<and> list_all local_class l \<and>
         d \<noteq> [] \<and> list_all label_class d \<and>
         t \<noteq> [] \<and> list_all tail_class t)" (is "?L \<longleftrightarrow> ?R")
  proof
    assume ?L
    then have "re_match email_pattern (py_strip e)"
      by (simp add: validate_email_unfold)
    then obtain l d t z where f: "py_strip e = l @ ''@'' @ d @ ''.'' @ t @ z"
      "l \<noteq> []" "list_all local_class l" "d \<noteq> []" "list_all label_class d"
      "t \<noteq> []" "list_all tail_class t" and z: "z = [] \<or> z = [CHR 0x0A]"
      unfolding re_match_email_pattern by blast
    have "z \<noteq> [CHR 0x0A]"
    proof
      assume "z = [CHR 0x0A]"
      with f(1) have "py_strip e = (l @ ''@'' @ d @ ''.'' @ t) @ [CHR 0x0A]" by simp
      then show False using strip_no_trailing_LF by blast
    qed
    with z have "z = []" by blast
    with f show ?R by auto
  next
    assume ?R
    then obtain l d t where f: "py_strip e = l @ ''@'' @ d @ ''.'' @ t"
      "l \<noteq> []" "list_all local_class l" "d \<noteq> []" "list_all label_class d"
      "t \<noteq> []" "list_all tail_class t"
      by blast
    then have "py_strip e = l @ ''@'' @ d @ ''.'' @ t @ []" by simp
    with f have m: "re_match email_pattern (py_strip e)"
      unfolding re_match_email_pattern by blast
    from f(1) have "CHR ''@'' \<in> set (py_strip e)" by simp
    with set_py_strip have "CHR ''@'' \<in> set e" by blast
    then have "e \<noteq> []" by auto
    with m \<open>CHR ''@'' \<in> set e\<close> show ?L by (simp add: validate_email_unfold)
  qed
qed


text \<open>
  The claim as the specification words it asks for one or more labels.  The address
  \<^verbatim>\<open>a@b\<close> has that form, with the single label \<^verbatim>\<open>b\<close>, and the validator rejects it:
  the pattern demands a dot after the first label.
\<close>

theorem validate_email_needs_dot:
  "spec_email_form (py_strip ''a@b'') \<and> \<not> validate_email ''a@b''"
proof
  have "py_strip ''a@b'' = ''a'' @ ''@'' @ py_join ''.'' [''b'']"
    by (simp add: strip_defs)
  moreover have "list_all local_class ''a''" "list_all (\<lambda>b. b \<noteq> [] \<and> list_all label_class b) [''b'']"
    by (simp_all add: class_defs)
  ultimately show "spec_email_form (py_strip ''a@b'')"
    unfolding spec_email_form_def by blast
  show "\<not> validate_email ''a@b''"
    by (simp add: validate_email_def email_pattern_def strip_defs class_defs py_startswith_def)
qed

theorem validate_email_iff_witness:
  "validate_email ''user.name+tag@example-domain.com'' \<and>
   \<not> py_in ''@'' ''not-an-email'' \<and> \<not> validate_email ''not-an-email''"
proof -
  have s: "py_strip ''user.name+tag@example-domain.com'' =
       ''user.name+tag'' @ ''@'' @ ''example-domain'' @ ''.'' @ ''com''"
    by (simp add: strip_defs)
  have c: "list_all local_class ''user.name+tag''" "list_all label_class ''example-domain''"
      "list_all tail_class ''com''"
    by (simp_all add: class_defs)
  have "\<exists>l d t. py_strip ''user.name+tag@example-domain.com'' = l @ ''@'' @ d @ ''.'' @ t \<and>
         l \<noteq> [] \<and> list_all local_class l \<and> d \<noteq> [] \<and> list_all label_class d \<and>
         t \<noteq> [] \<and> list_all tail_class t"
    apply (rule exI [of _ "''user.name+tag''"])
    apply (rule exI [of _ "''example-domain''"])
    apply (rule exI [of _ "''com''"])
    using s c by simp
  then have "validate_email ''user.name+tag@example-domain.com''"
    using validate_email_iff [of "''user.name+tag@example-domain.com''"] by blast
  moreover have n: "\<not> py_in ''@'' ''not-an-email''"
    by (simp add: py_startswith_def)
  moreover have "\<not> validate_email ''not-an-email''"
    using validate_email_iff [of "''not-an-email''"] n by blast
  ultimately show ?thesis by blast
qed


subsection \<open>The parser\<close>

lemma py_split1_first:
  "c \<notin> set l \<Longrightarrow> py_split1 c (l @ c # rest) = [l, rest]"
proof -
  assume n: "c \<notin> set l"
  then have "dropWhile (\<lambda>x. x \<noteq> c) (l @ c # rest) = c # rest"
    by (induction l) auto
  moreover from n have "takeWhile (\<lambda>x. x \<noteq> c) (l @ c # rest) = l"
    by (induction l) auto
  ultimately show ?thesis by (simp add: py_split1_def)
qed

lemma py_split1_none:
  "c \<notin> set s \<Longrightarrow> py_split1 c s = [s]"
proof -
  assume "c \<notin> set s"
  then have d: "dropWhile (\<lambda>x. x \<noteq> c) s = []"
    by (induction s) auto
  show ?thesis unfolding py_split1_def d by simp
qed

lemma py_split_nonempty: "py_split sep s \<noteq> []"
  by (induction s) (auto split: list.splits)

lemma py_split_no_sep: "p \<in> set (py_split sep s) \<Longrightarrow> sep \<notin> set p"
  by (induction s arbitrary: p) (auto split: list.splits if_splits)

lemma py_join_Cons:
  "ps \<noteq> [] \<Longrightarrow> py_join sep (p # ps) = p @ sep @ py_join sep ps"
  by (cases ps) auto

lemma py_join_split: "py_join [sep] (py_split sep s) = s"
proof (induction s)
  case Nil
  then show ?case by simp
next
  case (Cons c cs)
  show ?case
  proof (cases "c = sep")
    case True
    with Cons show ?thesis by (simp add: py_join_Cons py_split_nonempty)
  next
    case False
    obtain p ps where ps: "py_split sep cs = p # ps"
      using py_split_nonempty [of sep cs] by (cases "py_split sep cs") auto
    with Cons have "py_join [sep] (p # ps) = cs" by simp
    then have "py_join [sep] ((c # p) # ps) = c # cs"
      by (cases ps) auto
    with False ps show ?thesis by simp
  qed
qed

lemma py_split_no_sep_string: "sep \<notin> set p \<Longrightarrow> py_split sep p = [p]"
  by (induction p) auto

lemma py_split_append:
  "sep \<notin> set p \<Longrightarrow> py_split sep (p @ sep # s) = p # py_split sep s"
  by (induction p) auto

lemma py_split_join:
  "segs \<noteq> [] \<Longrightarrow> (\<And>p. p \<in> set segs \<Longrightarrow> sep \<notin> set p) \<Longrightarrow>
   py_split sep (py_join [sep] segs) = segs"
proof (induction segs)
  case Nil
  then show ?case by simp
next
  case (Cons p ps)
  show ?case
  proof (cases ps)
    case Nil
    with Cons.prems show ?thesis by (simp add: py_split_no_sep_string)
  next
    case (Cons q qs)
    with Cons.prems Cons.IH have "py_split sep (py_join [sep] ps) = ps" by simp
    moreover have "sep \<notin> set p" using Cons.prems by simp
    ultimately show ?thesis using Cons
      by (simp add: py_split_append)
  qed
qed

lemma local_class_not_at: "local_class c \<Longrightarrow> c \<noteq> CHR ''@''"
  by (auto simp: class_defs)

lemma label_class_not_dot: "label_class c \<Longrightarrow> c \<noteq> CHR ''.''"
  by (auto simp: class_defs)

lemma parse_email_at:
  "py_strip e = u @ ''@'' @ d \<Longrightarrow> CHR ''@'' \<notin> set u \<Longrightarrow>
   parse_email e =
     Inr (u, d, hd (py_split CHR ''.'' d),
          if 1 < length (py_split CHR ''.'' d) then last (py_split CHR ''.'' d) else [])"
  using py_split_nonempty [of "CHR ''.''" d]
  by (cases "py_split CHR ''.'' d") (simp_all add: parse_email_def py_split1_first Let_def)

lemma valid_strip_form:
  "validate_email e \<Longrightarrow>
   \<exists>u d. py_strip e = u @ ''@'' @ d \<and> CHR ''@'' \<notin> set u"
proof -
  assume "validate_email e"
  then have "re_match email_pattern (py_strip e)" by (simp add: validate_email_unfold)
  then obtain l d t z where f: "py_strip e = l @ ''@'' @ d @ ''.'' @ t @ z" "list_all local_class l"
    unfolding re_match_email_pattern by blast
  from f(2) have "CHR ''@'' \<notin> set l"
    using local_class_not_at by (auto simp: list_all_iff)
  with f(1) show ?thesis by blast
qed


lemma py_split_trailing_sep:
  "1 < length (py_split sep (s @ [sep])) \<and> last (py_split sep (s @ [sep])) = []"
proof (induction s)
  case Nil
  then show ?case by simp
next
  case (Cons c cs)
  obtain p ps where ps: "py_split sep (cs @ [sep]) = p # ps"
    using py_split_nonempty [of sep "cs @ [sep]"] by (cases "py_split sep (cs @ [sep])") auto
  with Cons have "ps \<noteq> []" "last (p # ps) = []" by auto
  with ps show ?case by auto
qed


lemma validate_emailI:
  assumes "py_strip e = l @ ''@'' @ d @ ''.'' @ t"
    and "l \<noteq> []" "list_all local_class l"
    and "d \<noteq> []" "list_all label_class d"
    and "t \<noteq> []" "list_all tail_class t"
  shows "validate_email e"
proof -
  from assms(1) have "py_strip e = l @ ''@'' @ d @ ''.'' @ t @ []" by simp
  with assms have m: "re_match email_pattern (py_strip e)"
    unfolding re_match_email_pattern by blast
  from assms(1) have "CHR ''@'' \<in> set (py_strip e)" by simp
  with set_py_strip have "CHR ''@'' \<in> set e" by blast
  with m show ?thesis by (auto simp: validate_email_unfold)
qed

lemmas parse_defs = parse_email_def py_split1_def strip_defs

text \<open>
  Claim C5.  For every input that \<open>validate_email\<close> accepts, \<open>parse_email\<close> returns
  (it does not raise), and the local part, \<^verbatim>\<open>@\<close> and the full domain it returns, joined
  again, are the trimmed input.
\<close>

theorem parse_email_rejoin:
  "validate_email e \<Longrightarrow>
   \<exists>u d n x. parse_email e = Inr (u, d, n, x) \<and> u @ ''@'' @ d = py_strip e"
proof -
  assume "validate_email e"
  then obtain u d where "py_strip e = u @ ''@'' @ d" "CHR ''@'' \<notin> set u"
    using valid_strip_form by blast
  then show ?thesis using parse_email_at [of e u d] by simp
qed

theorem parse_email_rejoin_witness:
  "validate_email ''  user.name+tag@example-domain.com '' \<and>
   (\<exists>u d n x. parse_email ''  user.name+tag@example-domain.com '' = Inr (u, d, n, x) \<and>
      u @ ''@'' @ d = ''user.name+tag@example-domain.com'')"
proof -
  have s: "py_strip ''  user.name+tag@example-domain.com '' = ''user.name+tag@example-domain.com''"
    by (simp add: strip_defs)
  have v: "validate_email ''  user.name+tag@example-domain.com ''"
    by (rule validate_emailI [of _ "''user.name+tag''" "''example-domain''" "''com''"])
       (simp_all add: s class_defs)
  from parse_email_rejoin [OF v] v show ?thesis unfolding s by blast
qed

text \<open>
  Claim C6.  When the trimmed input is \<open>u\<close>, \<^verbatim>\<open>@\<close>, \<open>d\<close> with no \<^verbatim>\<open>@\<close> in \<open>u\<close> (so the
  split is at the first \<^verbatim>\<open>@\<close>), and \<open>d\<close> is the segments \<open>segs\<close> joined by dots, none of
  them holding a dot, then \<open>parse_email\<close> returns \<open>u\<close>, \<open>d\<close>, the first segment as the
  domain label, and as the extension the last segment when there is more than one
  segment, the empty string otherwise.  The two examples of the specification follow.
\<close>

theorem parse_email_segments:
  "(py_strip e = u @ ''@'' @ d \<and> CHR ''@'' \<notin> set u \<and>
    py_join ''.'' segs = d \<and> segs \<noteq> [] \<and> (\<forall>p\<in>set segs. CHR ''.'' \<notin> set p)
      \<longrightarrow> parse_email e = Inr (u, d, hd segs, if 1 < length segs then last segs else []))
   \<and> parse_email ''user@example.com'' = Inr (''user'', ''example.com'', ''example'', ''com'')
   \<and> parse_email ''user@sub.example.co.uk'' = Inr (''user'', ''sub.example.co.uk'', ''sub'', ''uk'')"
proof (intro conjI impI)
  assume a: "py_strip e = u @ ''@'' @ d \<and> CHR ''@'' \<notin> set u \<and>
    py_join ''.'' segs = d \<and> segs \<noteq> [] \<and> (\<forall>p\<in>set segs. CHR ''.'' \<notin> set p)"
  then have "py_split CHR ''.'' d = segs"
    using py_split_join [of segs "CHR ''.''"] by simp
  with a show "parse_email e = Inr (u, d, hd segs, if 1 < length segs then last segs else [])"
    using parse_email_at [of e u d] by simp
next
  show "parse_email ''user@example.com'' = Inr (''user'', ''example.com'', ''example'', ''com'')"
    by (simp add: parse_defs)
  show "parse_email ''user@sub.example.co.uk'' = Inr (''user'', ''sub.example.co.uk'', ''sub'', ''uk'')"
    by (simp add: parse_defs)
qed

theorem parse_email_segments_witness:
  "parse_email '' bob@mail.example.org  '' = Inr (''bob'', ''mail.example.org'', ''mail'', ''org'')
   \<and> parse_email ''root@localhost'' = Inr (''root'', ''localhost'', ''localhost'', [])"
proof
  have "py_strip '' bob@mail.example.org  '' = ''bob'' @ ''@'' @ ''mail.example.org'' \<and>
      CHR ''@'' \<notin> set ''bob'' \<and>
      py_join ''.'' [''mail'', ''example'', ''org''] = ''mail.example.org'' \<and>
      [''mail'', ''example'', ''org''] \<noteq> [] \<and>
      (\<forall>p\<in>set [''mail'', ''example'', ''org'']. CHR ''.'' \<notin> set p)"
    by (simp add: strip_defs)
  then show "parse_email '' bob@mail.example.org  '' = Inr (''bob'', ''mail.example.org'', ''mail'', ''org'')"
    using parse_email_segments [of "'' bob@mail.example.org  ''" "''bob''" "''mail.example.org''"
      "[''mail'', ''example'', ''org'']", THEN conjunct1, THEN mp]
    by simp
next
  have "py_strip ''root@localhost'' = ''root'' @ ''@'' @ ''localhost'' \<and>
      CHR ''@'' \<notin> set ''root'' \<and>
      py_join ''.'' [''localhost''] = ''localhost'' \<and>
      [''localhost''] \<noteq> [] \<and>
      (\<forall>p\<in>set [''localhost'']. CHR ''.'' \<notin> set p)"
    by (simp add: strip_defs)
  then show "parse_email ''root@localhost'' = Inr (''root'', ''localhost'', ''localhost'', [])"
    using parse_email_segments [of "''root@localhost''" "''root''" "''localhost''" "[''localhost'']",
      THEN conjunct1, THEN mp]
    by simp
qed

text \<open>
  Claim C10.  The address \<^verbatim>\<open>a@b.c.\<close> is accepted by \<open>validate_email\<close>; its domain
  \<^verbatim>\<open>b.c.\<close> contains a dot and ends with one; \<open>parse_email\<close> returns the empty extension
  for it, for which \<open>tld_info\<close> reports \<^verbatim>\<open>No TLD / local\<close>.  The same holds for every
  accepted input whose domain ends with a dot.
\<close>

theorem trailing_dot_no_tld:
  "validate_email ''a@b.c.''
   \<and> parse_email ''a@b.c.'' = Inr (''a'', ''b.c.'', ''b'', [])
   \<and> CHR ''.'' \<in> set ''b.c.''
   \<and> tld_info [] = ''No TLD / local''
   \<and> (validate_email e \<and> parse_email e = Inr (u, d, n, x) \<and> d \<noteq> [] \<and> last d = CHR ''.''
        \<longrightarrow> x = [] \<and> tld_info x = ''No TLD / local'')"
proof (intro conjI impI)
  show "validate_email ''a@b.c.''"
    by (rule validate_emailI [of _ "''a''" "''b''" "''c.''"]) (simp_all add: strip_defs class_defs)
  show "parse_email ''a@b.c.'' = Inr (''a'', ''b.c.'', ''b'', [])" by (simp add: parse_defs)
  show "CHR ''.'' \<in> set ''b.c.''" by simp
  show t: "tld_info [] = ''No TLD / local''" by (simp add: tld_info_def)
  assume a: "validate_email e \<and> parse_email e = Inr (u, d, n, x) \<and> d \<noteq> [] \<and> last d = CHR ''.''"
  then obtain u' d' where f: "py_strip e = u' @ ''@'' @ d'" "CHR ''@'' \<notin> set u'"
    using valid_strip_form by blast
  with a parse_email_at [of e u' d'] have d: "d' = d"
    and x: "x = (if 1 < length (py_split CHR ''.'' d) then last (py_split CHR ''.'' d) else [])"
    by auto
  from a obtain b where "d = b @ [CHR ''.'']"
    by (metis append_butlast_last_id)
  with x py_split_trailing_sep [of "CHR ''.''" b] show x0: "x = []" by simp
  with t show "tld_info x = ''No TLD / local''" by simp
qed

theorem trailing_dot_no_tld_witness:
  "validate_email ''me@mail.example.'' \<and>
   parse_email ''me@mail.example.'' = Inr (''me'', ''mail.example.'', ''mail'', []) \<and>
   tld_info [] = ''No TLD / local''"
proof -
  have v: "validate_email ''me@mail.example.''"
    by (rule validate_emailI [of _ "''me''" "''mail''" "''example.''"])
       (simp_all add: strip_defs class_defs)
  have p: "parse_email ''me@mail.example.'' = Inr (''me'', ''mail.example.'', ''mail'', [])"
    by (simp add: parse_defs)
  have "validate_email ''me@mail.example.'' \<and>
     parse_email ''me@mail.example.'' = Inr (''me'', ''mail.example.'', ''mail'', []) \<and>
     ''mail.example.'' \<noteq> [] \<and> last ''mail.example.'' = CHR ''.''"
    using v p by simp
  with trailing_dot_no_tld [of "''me@mail.example.''" "''me''" "''mail.example.''" "''mail''" "[]"]
  show ?thesis using v p by blast
qed

subsection \<open>Classification\<close>

lemma py_endswith_iff: "py_endswith s x = (\<exists>pre. s = pre @ x)"
proof
  assume "py_endswith s x"
  then have "s = take (length s - length x) s @ x"
    by (metis append_take_drop_id py_endswith_def)
  then show "\<exists>pre. s = pre @ x" ..
next
  assume "\<exists>pre. s = pre @ x"
  then show "py_endswith s x" by (auto simp: py_endswith_def)
qed

lemma py_startswith_iff: "py_startswith s p = (\<exists>post. s = p @ post)"
proof
  assume "py_startswith s p"
  then have "s = p @ drop (length p) s"
    by (metis append_take_drop_id py_startswith_def)
  then show "\<exists>post. s = p @ post" ..
next
  assume "\<exists>post. s = p @ post"
  then show "py_startswith s p" by (auto simp: py_startswith_def)
qed

lemma py_in_iff: "py_in k s = (\<exists>pre post. s = pre @ k @ post)"
proof (induction s)
  case Nil
  then show ?case by auto
next
  case (Cons c cs)
  show ?case
  proof
    assume "py_in k (c # cs)"
    then consider "py_startswith (c # cs) k" | "py_in k cs" by auto
    then show "\<exists>pre post. c # cs = pre @ k @ post"
    proof cases
      case 1
      then obtain post where "c # cs = [] @ k @ post"
        unfolding py_startswith_iff by auto
      then show ?thesis by blast
    next
      case 2
      with Cons obtain pre post where "cs = pre @ k @ post" by blast
      then have "c # cs = (c # pre) @ k @ post" by simp
      then show ?thesis by blast
    qed
  next
    assume "\<exists>pre post. c # cs = pre @ k @ post"
    then obtain pre post where e: "c # cs = pre @ k @ post" by blast
    show "py_in k (c # cs)"
    proof (cases pre)
      case Nil
      with e have "py_startswith (c # cs) k"
        unfolding py_startswith_iff by auto
      then show ?thesis by simp
    next
      case (Cons a pre')
      with e have "cs = pre' @ k @ post" by simp
      with Cons.IH have "py_in k cs" by blast
      then show ?thesis by simp
    qed
  qed
qed

lemma list_ex_keywords:
  "list_ex (\<lambda>k. py_in k d) personal_keywords =
     (\<exists>k pre post. k \<in> set personal_keywords \<and> d = pre @ k @ post)"
  by (auto simp: list_ex_iff py_in_iff)

lemma category_text_inj: "(category_text a = category_text b) = (a = b)"
  by (cases a; cases b) simp_all

lemmas lower_defs = py_lower_def lower_char_def code_point_def char_of_eq_iff
lemmas type_defs = detect_email_type_def personal_keywords_def py_startswith_def py_endswith_def lower_defs

text \<open>
  Claim C3.  For every domain string the result of \<open>detect_email_type\<close> is the text of
  exactly one of the four categories, the one the specification's precedence picks: a
  provider keyword found anywhere in the lower-cased domain gives Personal, before the
  suffixes \<^verbatim>\<open>.edu\<close>, \<^verbatim>\<open>.ac.in\<close>, \<^verbatim>\<open>.edu.in\<close> (Educational) and \<^verbatim>\<open>.gov\<close>
  (Government) are looked at; otherwise Business.  The four texts differ, so the
  category is determined by the text.
\<close>

theorem detect_email_type_precedence:
  "detect_email_type d = category_text (spec_email_type d)
   \<and> (\<forall>a b. (category_text a = category_text b) = (a = b))"
proof
  show "detect_email_type d = category_text (spec_email_type d)"
    unfolding detect_email_type_def spec_email_type_def Let_def list_ex_keywords
    by (simp add: py_endswith_iff ex_disj_distrib)
  show "\<forall>a b. (category_text a = category_text b) = (a = b)"
    by (simp add: category_text_inj)
qed


theorem detect_email_type_precedence_witness:
  "spec_email_type ''Hotmail.EDU'' = Personal \<and> spec_email_type ''cs.example.ac.in'' = Educational
   \<and> spec_email_type ''state.gov'' = Government \<and> spec_email_type ''example.org'' = Business"
proof -
  have "detect_email_type ''Hotmail.EDU'' = category_text Personal"
       "detect_email_type ''cs.example.ac.in'' = category_text Educational"
       "detect_email_type ''state.gov'' = category_text Government"
       "detect_email_type ''example.org'' = category_text Business"
    by (simp_all add: type_defs)
  then show ?thesis
    using detect_email_type_precedence [of "''Hotmail.EDU''"]
      detect_email_type_precedence [of "''cs.example.ac.in''"]
      detect_email_type_precedence [of "''state.gov''"]
      detect_email_type_precedence [of "''example.org''"]
    by metis
qed

lemma provider_match_iff: "provider_match s key = spec_key_match s key"
  by (simp add: provider_match_def spec_key_match_def py_endswith_iff)

lemma provider_insights_first:
  assumes "i < length provider_mapping"
    and "provider_mapping ! i = (key, (n, t, nt))"
    and "provider_match (py_lower d) key"
    and "\<forall>j<i. \<not> provider_match (py_lower d) (fst (provider_mapping ! j))"
  shows "provider_insights d = \<lparr>provider_name = n, provider_type = t, provider_notes = nt\<rparr>"
proof -
  have "find (\<lambda>(key, val). provider_match (py_lower d) key) provider_mapping
          = Some (provider_mapping ! i)"
    unfolding find_Some_iff using assms by (auto simp: case_prod_beta)
  with assms(2) show ?thesis
    by (simp add: provider_insights_def)
qed

lemma provider_insights_none:
  assumes "\<forall>j<length provider_mapping. \<not> provider_match (py_lower d) (fst (provider_mapping ! j))"
  shows "provider_insights d =
     (if py_endswith (py_lower d) ''.edu'' then
        \<lparr>provider_name = ''Educational (edu)'', provider_type = ''Institutional'',
         provider_notes = ''Typically a university/college email.''\<rparr>
      else if py_endswith (py_lower d) ''.gov'' then
        \<lparr>provider_name = ''Government (gov)'', provider_type = ''Institutional'',
         provider_notes = ''Government domain.''\<rparr>
      else
        \<lparr>provider_name = ''Custom / Organization'', provider_type = ''Custom/Business'',
         provider_notes = ''Could be a company or self-hosted email. Provider-specific features unknown.''\<rparr>)"
proof -
  have "find (\<lambda>(key, val). provider_match (py_lower d) key) provider_mapping = None"
    unfolding find_None_iff using assms by (auto simp: in_set_conv_nth case_prod_beta)
  then show ?thesis by (simp add: provider_insights_def)
qed

lemmas provider_defs = provider_insights_def provider_mapping_def provider_match_def
  py_endswith_def lower_defs

text \<open>
  Claim C4.  \<open>provider_insights\<close> returns the entry of the first key of the table, in
  the order of its declaration, that equals the lower-cased domain or follows a dot at
  its end.  When no key matches, a domain ending in \<^verbatim>\<open>.edu\<close> or \<^verbatim>\<open>.gov\<close> gets the
  institutional entry, and every other domain (such as \<^verbatim>\<open>unknownhost.xyz\<close>) the entry
  named \<^verbatim>\<open>Custom / Organization\<close>.  A record with its three fields is returned for
  every domain.
\<close>

theorem provider_insights_first_match:
  "(i < length provider_mapping \<and> provider_mapping ! i = (key, (n, t, nt)) \<and>
    spec_key_match (py_lower d) key \<and>
    (\<forall>j<i. \<not> spec_key_match (py_lower d) (fst (provider_mapping ! j)))
      \<longrightarrow> provider_insights d = \<lparr>provider_name = n, provider_type = t, provider_notes = nt\<rparr>)
   \<and> ((\<forall>j<length provider_mapping. \<not> spec_key_match (py_lower d) (fst (provider_mapping ! j)))
      \<longrightarrow> provider_insights d =
         (if \<exists>pre. py_lower d = pre @ ''.edu'' then
            \<lparr>provider_name = ''Educational (edu)'', provider_type = ''Institutional'',
             provider_notes = ''Typically a university/college email.''\<rparr>
          else if \<exists>pre. py_lower d = pre @ ''.gov'' then
            \<lparr>provider_name = ''Government (gov)'', provider_type = ''Institutional'',
             provider_notes = ''Government domain.''\<rparr>
          else
            \<lparr>provider_name = ''Custom / Organization'', provider_type = ''Custom/Business'',
             provider_notes = ''Could be a company or self-hosted email. Provider-specific features unknown.''\<rparr>))
   \<and> provider_name (provider_insights ''unknownhost.xyz'') = ''Custom / Organization''
   \<and> (\<exists>n' t' nt'. provider_insights d =
          \<lparr>provider_name = n', provider_type = t', provider_notes = nt'\<rparr>)"
proof (intro conjI impI)
  assume "i < length provider_mapping \<and> provider_mapping ! i = (key, (n, t, nt)) \<and>
    spec_key_match (py_lower d) key \<and>
    (\<forall>j<i. \<not> spec_key_match (py_lower d) (fst (provider_mapping ! j)))"
  then show "provider_insights d = \<lparr>provider_name = n, provider_type = t, provider_notes = nt\<rparr>"
    using provider_insights_first [of i key n t nt d] by (simp add: provider_match_iff)
next
  assume "\<forall>j<length provider_mapping. \<not> spec_key_match (py_lower d) (fst (provider_mapping ! j))"
  then show "provider_insights d =
         (if \<exists>pre. py_lower d = pre @ ''.edu'' then
            \<lparr>provider_name = ''Educational (edu)'', provider_type = ''Institutional'',
             provider_notes = ''Typically a university/college email.''\<rparr>
          else if \<exists>pre. py_lower d = pre @ ''.gov'' then
            \<lparr>provider_name = ''Government (gov)'', provider_type = ''Institutional'',
             provider_notes = ''Government domain.''\<rparr>
          else
            \<lparr>provider_name = ''Custom / Organization'', provider_type = ''Custom/Business'',
             provider_notes = ''Could be a company or self-hosted email. Provider-specific features unknown.''\<rparr>)"
    using provider_insights_none [of d] by (simp add: provider_match_iff py_endswith_iff)
next
  show "provider_name (provider_insights ''unknownhost.xyz'') = ''Custom / Organization''"
    by (simp add: provider_defs)
next
  show "\<exists>n' t' nt'. provider_insights d =
          \<lparr>provider_name = n', provider_type = t', provider_notes = nt'\<rparr>"
    by (cases "provider_insights d") auto
qed

theorem provider_insights_first_match_witness:
  "provider_insights ''Mail.Yahoo.COM'' =
     \<lparr>provider_name = ''Yahoo Mail'', provider_type = ''Free/Consumer'',
      provider_notes = ''Popular consumer email provider.''\<rparr>
   \<and> provider_name (provider_insights ''cs.example.edu'') = ''Educational (edu)''"
proof
  have m: "provider_match (py_lower ''Mail.Yahoo.COM'') ''yahoo.com''"
    by (simp add: provider_match_def py_endswith_def lower_defs)
  have n: "\<forall>j<2. \<not> provider_match (py_lower ''Mail.Yahoo.COM'') (fst (provider_mapping ! j))"
    by (simp add: numeral_2_eq_2 All_less_Suc provider_mapping_def provider_match_def
        py_endswith_def lower_defs)
  have "2 < length provider_mapping \<and>
     provider_mapping ! 2 = (''yahoo.com'',
        (''Yahoo Mail'', ''Free/Consumer'', ''Popular consumer email provider.''))"
    by (simp add: provider_mapping_def)
  with m n show "provider_insights ''Mail.Yahoo.COM'' =
     \<lparr>provider_name = ''Yahoo Mail'', provider_type = ''Free/Consumer'',
      provider_notes = ''Popular consumer email provider.''\<rparr>"
    using provider_insights_first_match [of 2 "''yahoo.com''" "''Yahoo Mail''" "''Free/Consumer''"
        "''Popular consumer email provider.''" "''Mail.Yahoo.COM''", THEN conjunct1, THEN mp]
    by (simp add: provider_match_iff)
next
  have "\<forall>x\<in>set provider_mapping. \<not> provider_match (py_lower ''cs.example.edu'') (fst x)"
    by (simp add: provider_mapping_def provider_match_def py_endswith_def lower_defs)
  then have "\<forall>j<length provider_mapping.
      \<not> spec_key_match (py_lower ''cs.example.edu'') (fst (provider_mapping ! j))"
    by (simp add: provider_match_iff)
  moreover have "\<exists>pre. py_lower ''cs.example.edu'' = pre @ ''.edu''"
    unfolding py_endswith_iff [symmetric] by (simp add: py_endswith_def lower_defs)
  ultimately show "provider_name (provider_insights ''cs.example.edu'') = ''Educational (edu)''"
    using provider_insights_first_match [of 0 "[]" "[]" "[]" "[]" "''cs.example.edu''",
        THEN conjunct2, THEN conjunct1, THEN mp]
    by simp
qed

text \<open>
  Claim C2.  For the domain \<^verbatim>\<open>gmail.com\<close> the provider name is \<^verbatim>\<open>Google Mail\<close>, and
  the email type (the column \<^verbatim>\<open>type\<close> of the bulk table) is \<^verbatim>\<open>Personal Email\<close>, which
  contains \<^verbatim>\<open>Personal\<close>.
\<close>

theorem gmail_classification:
  "provider_insights ''gmail.com'' =
     \<lparr>provider_name = ''Google Mail'', provider_type = ''Free/Consumer'',
      provider_notes = ''Popular personal email provider (Gmail).''\<rparr>
   \<and> detect_email_type ''gmail.com'' = ''Personal Email''
   \<and> py_in ''Personal'' (detect_email_type ''gmail.com'')"
proof -
  have p: "provider_insights ''gmail.com'' =
     \<lparr>provider_name = ''Google Mail'', provider_type = ''Free/Consumer'',
      provider_notes = ''Popular personal email provider (Gmail).''\<rparr>"
    by (simp add: provider_defs)
  have t: "detect_email_type ''gmail.com'' = ''Personal Email''"
    by (simp add: type_defs)
  have "py_in ''Personal'' ''Personal Email''"
    by (simp add: py_startswith_def)
  with p t show ?thesis by simp
qed


lemma distinct_TLD_INFO: "distinct (map fst TLD_INFO)"
  by (simp add: TLD_INFO_def)

lemma distinct_COMMON_FIXES: "distinct (map fst COMMON_FIXES)"
  by (simp add: COMMON_FIXES_def)

lemma dict_get_missing: "k \<notin> fst ` set d \<Longrightarrow> dict_get d k dflt = dflt"
  using map_of_eq_None_iff [of d k] by (simp add: dict_get_def)

lemma dict_get_present:
  "distinct (map fst d) \<Longrightarrow> (k, v) \<in> set d \<Longrightarrow> dict_get d k dflt = v"
  by (simp add: dict_get_def)

lemma valid_parse_returns:
  "validate_email e \<Longrightarrow> \<exists>u dm n ext. parse_email e = Inr (u, dm, n, ext)"
proof -
  assume "validate_email e"
  then obtain u dm where "py_strip e = u @ ''@'' @ dm" "CHR ''@'' \<notin> set u"
    using valid_strip_form by blast
  then show ?thesis using parse_email_at [of e u dm] by simp
qed

text \<open>
  Claim C8.  The classification operations use no operation that can raise: each is a
  total function with a fall-back value.  \<open>tld_info\<close> gives \<^verbatim>\<open>No TLD / local\<close> for the
  empty extension, \<^verbatim>\<open>Unknown or custom TLD\<close> for an extension that is not a key of the
  table, and the table's value otherwise; \<open>suggest_fix\<close> gives no suggestion for a
  domain that is not a key; \<open>detect_email_type\<close> always gives one of the four texts;
  \<open>provider_insights\<close> falls back to its generic entry.  \<open>parse_email\<close>, which can
  raise, returns on every input that \<open>validate_email\<close> accepts.
\<close>

theorem classification_total:
  "tld_info [] = ''No TLD / local''
   \<and> (x \<noteq> [] \<and> py_lower x \<notin> fst ` set TLD_INFO \<longrightarrow> tld_info x = ''Unknown or custom TLD'')
   \<and> (x \<noteq> [] \<and> (py_lower x, v) \<in> set TLD_INFO \<longrightarrow> tld_info x = v)
   \<and> (py_lower d \<notin> fst ` set COMMON_FIXES \<longrightarrow> suggest_fix d = None)
   \<and> ((py_lower d, f) \<in> set COMMON_FIXES \<longrightarrow> suggest_fix d = Some f)
   \<and> (\<exists>c. detect_email_type d = category_text c)
   \<and> ((\<forall>k\<in>fst ` set provider_mapping. \<not> provider_match (py_lower d) k) \<and>
        \<not> py_endswith (py_lower d) ''.edu'' \<and> \<not> py_endswith (py_lower d) ''.gov''
        \<longrightarrow> provider_insights d =
          \<lparr>provider_name = ''Custom / Organization'', provider_type = ''Custom/Business'',
           provider_notes = ''Could be a company or self-hosted email. Provider-specific features unknown.''\<rparr>)
   \<and> (validate_email e \<longrightarrow> (\<exists>u dm n ext. parse_email e = Inr (u, dm, n, ext)))"
proof (intro conjI impI)
  show "tld_info [] = ''No TLD / local''" by (simp add: tld_info_def)
next
  assume "x \<noteq> [] \<and> py_lower x \<notin> fst ` set TLD_INFO"
  then show "tld_info x = ''Unknown or custom TLD''"
    by (simp add: tld_info_def dict_get_missing)
next
  assume "x \<noteq> [] \<and> (py_lower x, v) \<in> set TLD_INFO"
  then show "tld_info x = v"
    using dict_get_present [OF distinct_TLD_INFO] by (simp add: tld_info_def)
next
  assume "py_lower d \<notin> fst ` set COMMON_FIXES"
  then show "suggest_fix d = None"
    by (simp add: suggest_fix_def map_of_eq_None_iff)
next
  assume "(py_lower d, f) \<in> set COMMON_FIXES"
  then show "suggest_fix d = Some f"
    using distinct_COMMON_FIXES by (simp add: suggest_fix_def)
next
  show "\<exists>c. detect_email_type d = category_text c"
    unfolding detect_email_type_def Let_def
    by (metis category_text.simps)
next
  assume a: "(\<forall>k\<in>fst ` set provider_mapping. \<not> provider_match (py_lower d) k) \<and>
        \<not> py_endswith (py_lower d) ''.edu'' \<and> \<not> py_endswith (py_lower d) ''.gov''"
  then have "\<forall>j<length provider_mapping. \<not> provider_match (py_lower d) (fst (provider_mapping ! j))"
    by simp
  with a show "provider_insights d =
          \<lparr>provider_name = ''Custom / Organization'', provider_type = ''Custom/Business'',
           provider_notes = ''Could be a company or self-hosted email. Provider-specific features unknown.''\<rparr>"
    using provider_insights_none [of d] by simp
next
  assume "validate_email e"
  then show "\<exists>u dm n ext. parse_email e = Inr (u, dm, n, ext)"
    by (rule valid_parse_returns)
qed

theorem classification_total_witness:
  "tld_info ''XYZ'' = ''Unknown or custom TLD''
   \<and> tld_info ''UK'' = ''United Kingdom (country code TLD)''
   \<and> suggest_fix ''gmail.com'' = None
   \<and> suggest_fix ''Gamil.com'' = Some ''gmail.com''
   \<and> provider_name (provider_insights ''unknownhost.xyz'') = ''Custom / Organization''
   \<and> (\<exists>u dm n ext. parse_email '' someone@example.org '' = Inr (u, dm, n, ext))"
proof -
  note T = classification_total [of "''XYZ''" "[]" "''gmail.com''" "[]" "'' someone@example.org ''"]
  note U = classification_total [of "''UK''" "''United Kingdom (country code TLD)''"
      "''Gamil.com''" "''gmail.com''"]
  note V = classification_total [where d = "''unknownhost.xyz''"]
  have "''XYZ'' \<noteq> [] \<and> py_lower ''XYZ'' \<notin> fst ` set TLD_INFO"
    by (simp add: TLD_INFO_def lower_defs)
  with T have 1: "tld_info ''XYZ'' = ''Unknown or custom TLD''" by blast
  have "''UK'' \<noteq> [] \<and> (py_lower ''UK'', ''United Kingdom (country code TLD)'') \<in> set TLD_INFO"
    by (simp add: TLD_INFO_def lower_defs)
  with U have 2: "tld_info ''UK'' = ''United Kingdom (country code TLD)''" by blast
  have "py_lower ''gmail.com'' \<notin> fst ` set COMMON_FIXES"
    by (simp add: COMMON_FIXES_def lower_defs)
  with T have 3: "suggest_fix ''gmail.com'' = None" by blast
  have "(py_lower ''Gamil.com'', ''gmail.com'') \<in> set COMMON_FIXES"
    by (simp add: COMMON_FIXES_def lower_defs)
  with U have 4: "suggest_fix ''Gamil.com'' = Some ''gmail.com''" by blast
  have "(\<forall>k\<in>fst ` set provider_mapping. \<not> provider_match (py_lower ''unknownhost.xyz'') k) \<and>
        \<not> py_endswith (py_lower ''unknownhost.xyz'') ''.edu'' \<and>
        \<not> py_endswith (py_lower ''unknownhost.xyz'') ''.gov''"
    by (simp add: provider_mapping_def provider_match_def py_endswith_def lower_defs)
  with V have 5: "provider_name (provider_insights ''unknownhost.xyz'') = ''Custom / Organization''"
    by simp
  have s: "py_strip '' someone@example.org '' = ''someone@example.org''"
    by (simp add: strip_defs)
  have "validate_email '' someone@example.org ''"
    by (rule validate_emailI [of _ "''someone''" "''example''" "''org''"])
       (simp_all add: s class_defs)
  with T have 6: "\<exists>u dm n ext. parse_email '' someone@example.org '' = Inr (u, dm, n, ext)"
    by blast
  from 1 2 3 4 5 6 show ?thesis by blast
qed

subsection \<open>The creation year\<close>

text \<open>
  Claim C9.  \<open>fake_creation_year\<close> is a function of the address alone: the source reads
  nothing but its argument, so equal addresses give equal years.  The year is 2000 plus
  the MD5 hash of the address, as a number, modulo 25, and so lies between 2000 and
  2024 for every address.
\<close>

theorem fake_creation_year_range:
  "fake_creation_year email = 2000 + md5_int (utf8_encode email) mod 25
   \<and> 2000 \<le> fake_creation_year email \<and> fake_creation_year email \<le> 2024
   \<and> (\<forall>email'. email' = email \<longrightarrow> fake_creation_year email' = fake_creation_year email)"
proof -
  have "0 \<le> md5_int (utf8_encode email) mod 25" "md5_int (utf8_encode email) mod 25 < 25"
    by simp_all
  then show ?thesis by (simp add: fake_creation_year_def)
qed

theorem fake_creation_year_range_witness:
  "2000 \<le> fake_creation_year ''a@gmail.com'' \<and> fake_creation_year ''a@gmail.com'' \<le> 2024
   \<and> fake_creation_year ''a@gmail.com'' = fake_creation_year (''a'' @ ''@gmail.com'')"
proof -
  have "''a'' @ ''@gmail.com'' = ''a@gmail.com''" by simp
  then show ?thesis
    using fake_creation_year_range [of "''a@gmail.com''"] by simp
qed

subsection \<open>Bulk analysis\<close>

lemma bulk_record_of_returns:
  "\<exists>r. bulk_record_of e = Inr r \<and>
       (validate_email e \<longrightarrow> (\<exists>a. r = ValidRecord a \<and> rec_original a = e)) \<and>
       (\<not> validate_email e \<longrightarrow> r = ErrorRecord e ''Invalid format'')"
proof (cases "validate_email e")
  case True
  then obtain u d n x where "parse_email e = Inr (u, d, n, x)"
    using valid_parse_returns by blast
  with True show ?thesis by (simp add: bulk_record_of_def Let_def)
next
  case False
  then show ?thesis by (simp add: bulk_record_of_def)
qed

lemma bulk_loop_returns:
  "\<exists>rs. bulk_loop lines acc = Inr (acc @ rs) \<and> length rs = length lines \<and>
        (\<forall>i<length lines. bulk_record_of (lines ! i) = Inr (rs ! i))"
proof (induction lines arbitrary: acc)
  case Nil
  then show ?case by simp
next
  case (Cons e es)
  obtain r where r: "bulk_record_of e = Inr r"
    using bulk_record_of_returns by blast
  from Cons.IH [of "acc @ [r]"] obtain rs where
    rs: "bulk_loop es (acc @ [r]) = Inr ((acc @ [r]) @ rs)" "length rs = length es"
      "\<forall>i<length es. bulk_record_of (es ! i) = Inr (rs ! i)"
    by blast
  have "bulk_loop (e # es) acc = Inr (acc @ (r # rs))"
    using r rs(1) by simp
  moreover have "length (r # rs) = length (e # es)"
    using rs(2) by simp
  moreover have "\<forall>i<length (e # es). bulk_record_of ((e # es) ! i) = Inr ((r # rs) ! i)"
    using r rs(3) by (auto simp: nth_Cons split: nat.splits)
  ultimately show ?case by blast
qed


lemma example_lines:
  "map py_strip (filter (\<lambda>l. py_strip l \<noteq> [])
       (py_splitlines (''a@gmail.com'' @ [CHR 0x0A] @ ''not-an-email'')))
     = [''a@gmail.com'', ''not-an-email'']"
proof -
  have "py_splitlines (''a@gmail.com'' @ [CHR 0x0A] @ ''not-an-email'')
          = [''a@gmail.com'', ''not-an-email'']"
    by (simp add: is_linebreak_def code_point_def)
  then show ?thesis by (simp add: strip_defs)
qed

lemma example_valid: "validate_email ''a@gmail.com''"
  by (rule validate_emailI [of _ "''a''" "''gmail''" "''com''"]) (simp_all add: strip_defs class_defs)

lemma example_invalid: "\<not> validate_email ''not-an-email''"
  by (simp add: validate_email_unfold)

text \<open>
  Claim C7.  The loop over the lines never stops early: for every list of lines it
  returns one record per line, in order, and the record of a line is the result of the
  loop body on that line alone.  A line that \<open>validate_email\<close> rejects gives exactly the
  record with \<^verbatim>\<open>original\<close> the line and \<^verbatim>\<open>error\<close> the text \<^verbatim>\<open>Invalid format\<close>; an
  accepted line gives a valid record of that line.  For the two lines \<^verbatim>\<open>a@gmail.com\<close>
  and \<^verbatim>\<open>not-an-email\<close> the handler returns one valid record and one error record and
  reports 2 rows processed and 1 valid.
\<close>

theorem bulk_isolates_failures:
  "(\<exists>records. bulk_loop lines [] = Inr records \<and> length records = length lines \<and>
      (\<forall>i<length lines.
          bulk_record_of (lines ! i) = Inr (records ! i) \<and>
          (\<not> validate_email (lines ! i)
             \<longrightarrow> records ! i = ErrorRecord (lines ! i) ''Invalid format'') \<and>
          (validate_email (lines ! i)
             \<longrightarrow> (\<exists>a. records ! i = ValidRecord a \<and> rec_original a = lines ! i))))
   \<and> (\<exists>a. analyze_bulk (''a@gmail.com'' @ [CHR 0x0A] @ ''not-an-email'') =
            Inr (Results [ValidRecord a, ErrorRecord ''not-an-email'' ''Invalid format''] 2 1)
          \<and> rec_original a = ''a@gmail.com'')"
proof
  obtain rs where rs: "bulk_loop lines [] = Inr ([] @ rs)" "length rs = length lines"
      "\<forall>i<length lines. bulk_record_of (lines ! i) = Inr (rs ! i)"
    using bulk_loop_returns [of lines "[]"] by blast
  have "\<forall>i<length lines.
          bulk_record_of (lines ! i) = Inr (rs ! i) \<and>
          (\<not> validate_email (lines ! i)
             \<longrightarrow> rs ! i = ErrorRecord (lines ! i) ''Invalid format'') \<and>
          (validate_email (lines ! i)
             \<longrightarrow> (\<exists>a. rs ! i = ValidRecord a \<and> rec_original a = lines ! i))"
  proof (intro allI impI)
    fix i assume "i < length lines"
    with rs(3) have e: "bulk_record_of (lines ! i) = Inr (rs ! i)" by simp
    with bulk_record_of_returns [of "lines ! i"]
    show "bulk_record_of (lines ! i) = Inr (rs ! i) \<and>
          (\<not> validate_email (lines ! i)
             \<longrightarrow> rs ! i = ErrorRecord (lines ! i) ''Invalid format'') \<and>
          (validate_email (lines ! i)
             \<longrightarrow> (\<exists>a. rs ! i = ValidRecord a \<and> rec_original a = lines ! i))"
      by auto
  qed
  with rs(1,2) show "\<exists>records. bulk_loop lines [] = Inr records \<and> length records = length lines \<and>
      (\<forall>i<length lines.
          bulk_record_of (lines ! i) = Inr (records ! i) \<and>
          (\<not> validate_email (lines ! i)
             \<longrightarrow> records ! i = ErrorRecord (lines ! i) ''Invalid format'') \<and>
          (validate_email (lines ! i)
             \<longrightarrow> (\<exists>a. records ! i = ValidRecord a \<and> rec_original a = lines ! i)))"
    by auto
next
  obtain a where a: "bulk_record_of ''a@gmail.com'' = Inr (ValidRecord a)"
      "rec_original a = ''a@gmail.com''"
    using bulk_record_of_returns [of "''a@gmail.com''"] example_valid by auto
  have b: "bulk_record_of ''not-an-email'' = Inr (ErrorRecord ''not-an-email'' ''Invalid format'')"
    using bulk_record_of_returns [of "''not-an-email''"] example_invalid by auto
  have l: "bulk_loop [''a@gmail.com'', ''not-an-email''] [] =
      Inr [ValidRecord a, ErrorRecord ''not-an-email'' ''Invalid format'']"
    by (simp add: a(1) b)
  have c: "valid_count [ValidRecord a, ErrorRecord ''not-an-email'' ''Invalid format''] = 1"
    by (simp add: valid_count_def)
  have "analyze_bulk (''a@gmail.com'' @ [CHR 0x0A] @ ''not-an-email'') =
      Inr (Results [ValidRecord a, ErrorRecord ''not-an-email'' ''Invalid format''] 2 1)"
    unfolding analyze_bulk_def example_lines Let_def l by (simp add: c)
  with a(2) show "\<exists>a. analyze_bulk (''a@gmail.com'' @ [CHR 0x0A] @ ''not-an-email'') =
            Inr (Results [ValidRecord a, ErrorRecord ''not-an-email'' ''Invalid format''] 2 1)
          \<and> rec_original a = ''a@gmail.com''"
    by blast
qed

theorem bulk_isolates_failures_witness:
  "\<exists>records. bulk_loop [''bad'', ''x@y.org'', ''also bad''] [] = Inr records \<and>
      length records = 3 \<and>
      records ! 0 = ErrorRecord ''bad'' ''Invalid format'' \<and>
      (\<exists>a. records ! 1 = ValidRecord a \<and> rec_original a = ''x@y.org'') \<and>
      records ! 2 = ErrorRecord ''also bad'' ''Invalid format''"
proof -
  let ?lines = "[''bad'', ''x@y.org'', ''also bad'']"
  have v: "\<not> validate_email ''bad''" "validate_email ''x@y.org''" "\<not> validate_email ''also bad''"
  proof -
    show "\<not> validate_email ''bad''" by (simp add: validate_email_unfold)
    show "validate_email ''x@y.org''"
      by (rule validate_emailI [of _ "''x''" "''y''" "''org''"]) (simp_all add: strip_defs class_defs)
    show "\<not> validate_email ''also bad''" by (simp add: validate_email_unfold)
  qed
  from bulk_isolates_failures [of ?lines, THEN conjunct1]
  obtain records where r: "bulk_loop ?lines [] = Inr records" "length records = length ?lines"
    and each: "\<forall>i<length ?lines.
          bulk_record_of (?lines ! i) = Inr (records ! i) \<and>
          (\<not> validate_email (?lines ! i)
             \<longrightarrow> records ! i = ErrorRecord (?lines ! i) ''Invalid format'') \<and>
          (validate_email (?lines ! i)
             \<longrightarrow> (\<exists>a. records ! i = ValidRecord a \<and> rec_original a = ?lines ! i))"
    by blast
  from each v have 0: "records ! 0 = ErrorRecord ''bad'' ''Invalid format''"
    and 1: "\<exists>a. records ! 1 = ValidRecord a \<and> rec_original a = ''x@y.org''"
    and 2: "records ! 2 = ErrorRecord ''also bad'' ''Invalid format''"
    by (simp_all add: All_less_Suc numeral_2_eq_2)
  from r 0 1 2 show ?thesis by simp
qed

end
